theory Spec2Isabelle
  imports Main "HOL-Library.Word"
begin

unbundle bit_operations_syntax

section \<open>Shared C notions\<close>

text \<open>
  A \<open>char\<close> array is a list of bytes. A C string stored in it is the run of bytes before
  the first zero byte.
\<close>

type_synonym cbuf = "char list"

definition NUL :: char where
  "NUL = CHR 0x00"

definition NL :: char where
  "NL = CHR 0x0A"

definition SLASH :: char where
  "SLASH = CHR ''/''"

definition cstr :: "cbuf \<Rightarrow> string" where
  "cstr b = takeWhile (\<lambda>c. c \<noteq> NUL) b"

text \<open>The values of \<open>errno\<close> that the library sets or tests, and a few that the system calls leave.\<close>

datatype errno = EEXIST | ENOENT | ENOTDIR | EACCES | ENAMETOOLONG | EBADF | ENOTTY | EIO

section \<open>fsize\<close>

text \<open>
  The open descriptors of the process: a descriptor is mapped to the size in bytes of the
  file it references. \<open>fstat\<close> fills \<open>st_size\<close> with that size and returns 0, or fails on a
  descriptor that is not open (the result \<open>None\<close> stands for the return value -1).
\<close>

type_synonym fd_table = "int \<rightharpoonup> nat"

record stat =
  st_size :: int

definition fstat :: "fd_table \<Rightarrow> int \<Rightarrow> stat option" where
  "fstat fds fd = (case fds fd of None \<Rightarrow> None | Some n \<Rightarrow> Some \<lparr>st_size = int n\<rparr>)"

definition fsize :: "fd_table \<Rightarrow> int \<Rightarrow> int" where
  "fsize fds fd = (case fstat fds fd of Some st \<Rightarrow> st_size st | None \<Rightarrow> - 1)"

section \<open>mkpath\<close>

text \<open>
  \<open>mkdir\<close> is a system call: it is a parameter of the model. It takes the file system and
  the path (a C string) and returns the new file system with \<open>None\<close> for the return value
  0, or \<open>Some e\<close> for the return value -1 with \<open>errno\<close> set to \<open>e\<close>.
\<close>

type_synonym 'fs mkdir_call = "'fs \<Rightarrow> string \<Rightarrow> 'fs \<times> errno option"

record 'fs mkpath_result =
  mk_ret :: bool
  mk_path :: cbuf
  mk_fs :: 'fs
  mk_errno :: "errno option"

definition mkdir_failed :: "errno option \<Rightarrow> bool" where
  "mkdir_failed r = (r \<noteq> None \<and> r \<noteq> Some EEXIST)"

text \<open>
  The \<open>for\<close> loop of \<open>mkpath\<close>, from index \<open>i\<close>. The result \<open>Inl\<close> is the early
  \<open>return false\<close> inside the loop; \<open>Inr\<close> is leaving the loop (its condition false, or
  \<open>break\<close>) with the file system and the buffer as they are then. A read beyond the array
  is undefined in C; the model leaves the loop there.
\<close>

function mkpath_loop ::
  "'fs mkdir_call \<Rightarrow> 'fs \<Rightarrow> cbuf \<Rightarrow> nat \<Rightarrow> 'fs mkpath_result + ('fs \<times> cbuf)" where
  "mkpath_loop mkdir fs path i =
     (if i < length path \<and> path ! i \<noteq> NUL then
        if path ! i \<noteq> SLASH then Inr (fs, path)
        else
          (case mkdir fs (cstr (path[i := NUL])) of
             (fs', r) \<Rightarrow>
               if mkdir_failed r
               then Inl \<lparr>mk_ret = False, mk_path = (path[i := NUL])[i := SLASH],
                         mk_fs = fs', mk_errno = r\<rparr>
               else mkpath_loop mkdir fs' ((path[i := NUL])[i := SLASH]) (i + 1))
      else Inr (fs, path))"
  by pat_completeness auto
termination
  by (relation "measure (\<lambda>(mkdir, fs, path, i). length path - i)") auto

declare mkpath_loop.simps [simp del]

definition mkpath :: "'fs mkdir_call \<Rightarrow> 'fs \<Rightarrow> cbuf \<Rightarrow> 'fs mkpath_result" where
  "mkpath mkdir fs path =
     (case mkpath_loop mkdir fs path 1 of
        Inl res \<Rightarrow> res
      | Inr (fs1, path1) \<Rightarrow>
          (case mkdir fs1 (cstr path1) of
             (fs2, r) \<Rightarrow>
               if mkdir_failed r
               then \<lparr>mk_ret = False, mk_path = path1, mk_fs = fs2, mk_errno = r\<rparr>
               else \<lparr>mk_ret = True, mk_path = path1, mk_fs = fs2, mk_errno = r\<rparr>))"

text \<open>
  A file system for running \<open>mkpath\<close>: the set of directories that exist, each named by
  its components from the root (the root is \<open>[]\<close> and always exists). \<open>mkdir\<close> behaves as
  POSIX describes: \<open>EEXIST\<close> when the path names an existing directory, \<open>ENOENT\<close> when the
  path is empty or the parent directory does not exist, and otherwise the directory is created.
\<close>

fun components_from :: "string \<Rightarrow> string \<Rightarrow> string list" where
  "components_from cur [] = (if cur = [] then [] else [cur])"
| "components_from cur (c # cs) =
     (if c = SLASH
      then (if cur = [] then components_from [] cs else cur # components_from [] cs)
      else components_from (cur @ [c]) cs)"

definition components :: "string \<Rightarrow> string list" where
  "components p = components_from [] p"

type_synonym dirs = "string list set"

definition posix_mkdir :: "dirs mkdir_call" where
  "posix_mkdir fs p =
     (let cs = components p in
      if p = [] then (fs, Some ENOENT)
      else if cs = [] \<or> cs \<in> fs then (fs, Some EEXIST)
      else if butlast cs = [] \<or> butlast cs \<in> fs then (insert cs fs, None)
      else (fs, Some ENOENT))"

section \<open>get_xdg_path\<close>

text \<open>
  The environment maps a variable's name to its value; \<open>getenv\<close> returns a null pointer
  (\<open>None\<close>) for a variable that is not set. \<open>PATH_MAX\<close> comes from \<open>limits.h\<close>: it is a
  parameter of the model.
\<close>

type_synonym environ = "string \<rightharpoonup> string"

definition getenv :: "environ \<Rightarrow> string \<Rightarrow> string option" where
  "getenv env name = env name"

text \<open>
  \<open>snprintf(path, n, ...)\<close> with the formatted text \<open>s\<close>: at most \<open>n - 1\<close> bytes of \<open>s\<close> and
  a terminator are stored; nothing is stored when \<open>n = 0\<close>. The first argument is the
  string held by \<open>path\<close> before the call, the result the string held afterwards.
\<close>

definition snprintf :: "string \<Rightarrow> nat \<Rightarrow> string \<Rightarrow> string" where
  "snprintf old n s = (if n = 0 then old else take (n - 1) s)"

record xdg_result =
  xdg_ret :: int
  xdg_path :: string
  xdg_errno :: "errno option"

text \<open>
  \<open>get_xdg_path\<close> with the string that \<open>path\<close> holds and the value of \<open>errno\<close> before the
  call; the result carries the return value and both after the call.
\<close>

definition get_xdg_path ::
  "nat \<Rightarrow> environ \<Rightarrow> string \<Rightarrow> errno option \<Rightarrow> string \<Rightarrow> string \<Rightarrow> string \<Rightarrow> xdg_result" where
  "get_xdg_path PATH_MAX env path errno0 sub_dir xdg_dir fallback_dir =
     (case getenv env xdg_dir of
        Some xdg \<Rightarrow>
          if length xdg + length sub_dir + 1 > PATH_MAX
          then \<lparr>xdg_ret = - 1, xdg_path = path, xdg_errno = Some ENAMETOOLONG\<rparr>
          else \<lparr>xdg_ret = 0,
                xdg_path = snprintf path PATH_MAX (xdg @ [SLASH] @ sub_dir),
                xdg_errno = errno0\<rparr>
      | None \<Rightarrow>
          (case getenv env ''HOME'' of
             Some home \<Rightarrow>
               if length home + length fallback_dir + length sub_dir + 2 > PATH_MAX
               then \<lparr>xdg_ret = - 1, xdg_path = path, xdg_errno = Some ENAMETOOLONG\<rparr>
               else \<lparr>xdg_ret = 0,
                     xdg_path =
                       snprintf path PATH_MAX (home @ [SLASH] @ fallback_dir @ [SLASH] @ sub_dir),
                     xdg_errno = errno0\<rparr>
           | None \<Rightarrow> \<lparr>xdg_ret = - 2, xdg_path = path, xdg_errno = errno0\<rparr>))"

text \<open>
  The behaviour that the specification describes for the choice of the base directory: the
  named variable is used only when it is set and not empty.
\<close>

definition xdg_path_as_specified ::
  "environ \<Rightarrow> string \<Rightarrow> string \<Rightarrow> string \<Rightarrow> string option" where
  "xdg_path_as_specified env sub_dir xdg_dir fallback_dir =
     (case env xdg_dir of
        Some xdg \<Rightarrow>
          if xdg \<noteq> [] then Some (xdg @ [SLASH] @ sub_dir)
          else (case env ''HOME'' of
                  Some home \<Rightarrow> Some (home @ [SLASH] @ fallback_dir @ [SLASH] @ sub_dir)
                | None \<Rightarrow> None)
      | None \<Rightarrow>
          (case env ''HOME'' of
             Some home \<Rightarrow> Some (home @ [SLASH] @ fallback_dir @ [SLASH] @ sub_dir)
           | None \<Rightarrow> None))"

section \<open>set_handler_term\<close>

text \<open>
  The signals of the table \<open>term_sigs\<close> (every conditional entry present, as on a POSIX
  system), and two that are not in it.
\<close>

datatype signal =
  SIGINT | SIGTERM | SIGABRT | SIGFPE | SIGILL
| SIGHUP | SIGQUIT | SIGPIPE | SIGUSR1 | SIGUSR2
| SIGALRM | SIGBUS
| SIGIO | SIGVTALRM | SIGXCPU | SIGXFSZ
| SIGSEGV | SIGCHLD

datatype 'h sighandler = SIG_DFL | SIG_IGN | Handler 'h

datatype sa_flag = SA_RESTART | SA_SIGINFO | SA_NODEFER | SA_RESETHAND

record 'h sigaction =
  sa_handler :: "'h sighandler"
  sa_mask :: "signal set"
  sa_flags :: "sa_flag set"

text \<open>The signal dispositions of the process: what \<open>sigaction\<close> reads and writes.\<close>

type_synonym 'h dispositions = "signal \<Rightarrow> 'h sigaction"

definition term_sigs :: "signal list" where
  "term_sigs =
     [SIGINT, SIGTERM, SIGABRT, SIGFPE, SIGILL,
      SIGHUP, SIGQUIT, SIGPIPE, SIGUSR1, SIGUSR2,
      SIGALRM, SIGBUS,
      SIGIO, SIGVTALRM, SIGXCPU, SIGXFSZ]"

text \<open>
  The loop over \<open>term_sigs\<close>: \<open>act\<close> is the one \<open>struct sigaction\<close> that the loop both
  extends (\<open>sigaddset\<close>) and installs, so it is threaded through the iterations.
\<close>

fun set_handler_term_loop ::
  "'h dispositions \<Rightarrow> 'h sigaction \<Rightarrow> signal list \<Rightarrow> 'h dispositions" where
  "set_handler_term_loop disp act [] = disp"
| "set_handler_term_loop disp act (sig # sigs) =
     (let test = disp sig in
      if sa_handler test \<noteq> SIG_IGN
      then (let act' = act\<lparr>sa_mask := insert sig (sa_mask act)\<rparr>
            in set_handler_term_loop (disp(sig := act')) act' sigs)
      else set_handler_term_loop disp act sigs)"

definition set_handler_term :: "'h dispositions \<Rightarrow> 'h \<Rightarrow> 'h dispositions" where
  "set_handler_term disp func =
     set_handler_term_loop disp
       \<lparr>sa_handler = Handler func, sa_mask = {}, sa_flags = {SA_RESTART}\<rparr> term_sigs"

text \<open>The signals of \<open>term_sigs\<close> on which \<open>set_handler_term\<close> installs the handler.\<close>

definition installed_sigs :: "'h dispositions \<Rightarrow> signal list" where
  "installed_sigs disp = filter (\<lambda>sig. sa_handler (disp sig) \<noteq> SIG_IGN) term_sigs"

text \<open>The disposition of a signal that the process has not changed.\<close>

definition default_action :: "'h sigaction" where
  "default_action = \<lparr>sa_handler = SIG_DFL, sa_mask = {}, sa_flags = {}\<rparr>"

section \<open>The standard streams\<close>

text \<open>
  An output stream: the bytes written so far and the outcomes of the write calls still to
  come (\<open>True\<close>: the call succeeds; once the list is used up every call succeeds). A call
  that fails writes nothing.
\<close>

record ostream =
  written :: string
  outcomes :: "bool list"

definition put :: "string \<Rightarrow> ostream \<Rightarrow> bool \<times> ostream" where
  "put s st =
     (case outcomes st of
        [] \<Rightarrow> (True, st\<lparr>written := written st @ s\<rparr>)
      | ok # later \<Rightarrow>
          if ok then (True, st\<lparr>written := written st @ s, outcomes := later\<rparr>)
          else (False, st\<lparr>outcomes := later\<rparr>))"

text \<open>\<open>fputs(s, stream) != EOF\<close> and \<open>fputc(c, stream) != EOF\<close>, with the stream afterwards.\<close>

definition fputs :: "string \<Rightarrow> ostream \<Rightarrow> bool \<times> ostream" where
  "fputs s st = put s st"

definition fputc :: "char \<Rightarrow> ostream \<Rightarrow> bool \<times> ostream" where
  "fputc c st = put [c] st"

text \<open>
  \<open>vfprintf(stream, format, ap) >= 0\<close>. The conversion of the format and its arguments to
  text belongs to the C library: it is the parameter \<open>render\<close>, which returns \<open>None\<close> when
  the conversion itself fails.
\<close>

definition vfprintf ::
  "('f \<Rightarrow> 'a \<Rightarrow> string option) \<Rightarrow> 'f \<Rightarrow> 'a \<Rightarrow> ostream \<Rightarrow> bool \<times> ostream" where
  "vfprintf render format ap st =
     (case render format ap of None \<Rightarrow> (False, st) | Some text \<Rightarrow> put text st)"

text \<open>
  The input stream is the list of bytes that can still be read; at its end every read
  reports end-of-file or an input error, which the library does not tell apart.
\<close>

fun fgets_read :: "nat \<Rightarrow> char list \<Rightarrow> char list \<times> char list" where
  "fgets_read 0 s = ([], s)"
| "fgets_read (Suc k) [] = ([], [])"
| "fgets_read (Suc k) (c # s) =
     (if c = NL then ([c], s)
      else (case fgets_read k s of (r, s') \<Rightarrow> (c # r, s')))"

text \<open>
  \<open>fgets(buf, n, stdin)\<close> for \<open>n > 1\<close>: the result is whether the call returned \<open>buf\<close>
  (not a null pointer), the array and the input afterwards.
\<close>

definition fgets :: "cbuf \<Rightarrow> nat \<Rightarrow> char list \<Rightarrow> bool \<times> cbuf \<times> char list" where
  "fgets buf n s =
     (case fgets_read (n - 1) s of
        (r, s') \<Rightarrow>
          if r = [] then (False, buf, s')
          else (True, r @ [NUL] @ drop (length r + 1) buf, s'))"

text \<open>\<open>while ((c = fgetc(stdin)) != '\n' && c != EOF);\<close>\<close>

fun drain :: "char list \<Rightarrow> char list" where
  "drain [] = []"
| "drain (c # s) = (if c = NL then s else drain s)"

text \<open>
  \<open>getline(&buf, &buf_sz, stdin)\<close> with \<open>buf = NULL\<close>: the return value, the allocated
  array (the line and its terminator) and the input afterwards.
\<close>

fun read_line :: "char list \<Rightarrow> char list \<times> char list" where
  "read_line [] = ([], [])"
| "read_line (c # s) =
     (if c = NL then ([c], s)
      else (case read_line s of (l, s') \<Rightarrow> (c # l, s')))"

definition getline :: "char list \<Rightarrow> int \<times> cbuf \<times> char list" where
  "getline s =
     (case read_line s of
        (l, s') \<Rightarrow> (if l = [] then - 1 else int (length l), l @ [NUL], s'))"

section \<open>The terminal\<close>

record termios =
  c_iflag :: "32 word"
  c_oflag :: "32 word"
  c_cflag :: "32 word"
  c_lflag :: "32 word"

definition ECHO :: "32 word" where
  "ECHO = 8"

text \<open>
  What the library's calls can see and change outside the program: the attributes of the
  terminal behind standard input (\<open>None\<close>: no terminal, \<open>tcgetattr\<close> and \<open>tcsetattr\<close>
  fail), the outcomes of the \<open>tcsetattr\<close> calls still to come on a terminal (\<open>True\<close>: the
  call succeeds; once the list is used up every call succeeds), standard input (the bytes
  that the reads to come deliver; input that \<open>TCSAFLUSH\<close> discards is not among them) and
  the diagnostic stream.
\<close>

record world =
  w_tty :: "termios option"
  w_tcset :: "bool list"
  w_stdin :: "char list"
  w_stderr :: ostream

definition tcgetattr :: "world \<Rightarrow> termios option" where
  "tcgetattr w = w_tty w"

definition tcsetattr :: "termios \<Rightarrow> world \<Rightarrow> bool \<times> world" where
  "tcsetattr t w =
     (case w_tty w of
        None \<Rightarrow> (False, w)
      | Some cur \<Rightarrow>
          (case w_tcset w of
             [] \<Rightarrow> (True, w\<lparr>w_tty := Some t\<rparr>)
           | ok # later \<Rightarrow>
               if ok then (True, w\<lparr>w_tty := Some t, w_tcset := later\<rparr>)
               else (False, w\<lparr>w_tcset := later\<rparr>)))"

definition echo_on :: "world \<Rightarrow> bool" where
  "echo_on w = (case w_tty w of None \<Rightarrow> False | Some t \<Rightarrow> c_lflag t AND ECHO \<noteq> 0)"

section \<open>err, warn, info\<close>

text \<open>The colour macros of \<open>exio.h\<close>; the argument says whether \<open>EXIO_USE_COLOUR\<close> is defined.\<close>

definition C_NORMAL :: "bool \<Rightarrow> string" where
  "C_NORMAL colour = (if colour then CHR 0x1B # ''[0m'' else [])"

definition C_ERROR :: "bool \<Rightarrow> string" where
  "C_ERROR colour = (if colour then CHR 0x1B # ''[31;1m'' else [])"

definition C_WARNING :: "bool \<Rightarrow> string" where
  "C_WARNING colour = (if colour then CHR 0x1B # ''[33;1m'' else [])"

definition C_INFO :: "bool \<Rightarrow> string" where
  "C_INFO colour = (if colour then CHR 0x1B # ''[34;1m'' else [])"

definition PREF_ERROR :: string where
  "PREF_ERROR = ''error: ''"

definition PREF_WARNING :: string where
  "PREF_WARNING = ''warning: ''"

definition PREF_INFO :: string where
  "PREF_INFO = ''info: ''"

text \<open>The macro \<open>MSG\<close>: three writes joined by \<open>&&\<close>, so a failed write ends the sequence.\<close>

definition MSG ::
  "string \<Rightarrow> ('f \<Rightarrow> 'a \<Rightarrow> string option) \<Rightarrow> 'f \<Rightarrow> 'a \<Rightarrow> ostream \<Rightarrow> bool \<times> ostream" where
  "MSG pref render format ap st =
     (case fputs pref st of
        (r1, st1) \<Rightarrow>
          if \<not> r1 then (False, st1)
          else
            (case vfprintf render format ap st1 of
               (r2, st2) \<Rightarrow>
                 if \<not> r2 then (False, st2)
                 else fputc NL st2))"

definition err ::
  "bool \<Rightarrow> ('f \<Rightarrow> 'a \<Rightarrow> string option) \<Rightarrow> 'f \<Rightarrow> 'a \<Rightarrow> ostream \<Rightarrow> bool \<times> ostream" where
  "err colour render format ap st =
     MSG (C_ERROR colour @ PREF_ERROR @ C_NORMAL colour) render format ap st"

definition warn ::
  "bool \<Rightarrow> ('f \<Rightarrow> 'a \<Rightarrow> string option) \<Rightarrow> 'f \<Rightarrow> 'a \<Rightarrow> ostream \<Rightarrow> bool \<times> ostream" where
  "warn colour render format ap st =
     MSG (C_WARNING colour @ PREF_WARNING @ C_NORMAL colour) render format ap st"

definition info ::
  "bool \<Rightarrow> ('f \<Rightarrow> 'a \<Rightarrow> string option) \<Rightarrow> 'f \<Rightarrow> 'a \<Rightarrow> ostream \<Rightarrow> bool \<times> ostream" where
  "info colour render format ap st =
     MSG (C_INFO colour @ PREF_INFO @ C_NORMAL colour) render format ap st"

section \<open>confirm\<close>

definition CHAR_YES :: char where
  "CHAR_YES = CHR ''y''"

definition CHAR_NO :: char where
  "CHAR_NO = CHR ''n''"

lemma fgets_read_shorter:
  "fgets_read k s = (r, s') \<Longrightarrow> r \<noteq> [] \<Longrightarrow> length s' < length s"
proof (induction k s arbitrary: r s' rule: fgets_read.induct)
  case (3 k c s)
  show ?case
  proof (cases "c = NL")
    case True
    with "3.prems" show ?thesis by auto
  next
    case False
    obtain r1 s1 where sub: "fgets_read k s = (r1, s1)" by (cases "fgets_read k s")
    with False "3.prems" have "s' = s1" by simp
    moreover have "length s1 \<le> length s"
    proof (cases "r1 = []")
      case True
      with sub show ?thesis by (cases k; cases s) (auto split: if_splits prod.splits)
    next
      case False
      with "3.IH" [OF \<open>c \<noteq> NL\<close> sub] show ?thesis by simp
    qed
    ultimately show ?thesis by simp
  qed
qed simp_all

lemma fgets_shorter:
  "fgets buf n s = (True, buf', s') \<Longrightarrow> length s' < length s"
  by (auto simp: fgets_def split: prod.splits if_splits dest: fgets_read_shorter)

lemma drain_length: "length (drain s) \<le> length s"
  by (induction s) auto

function confirm_loop :: "string \<Rightarrow> cbuf \<Rightarrow> world \<Rightarrow> bool \<times> world" where
  "confirm_loop prompt inb w =
     (let w1 = w\<lparr>w_stderr := snd (fputs prompt (w_stderr w))\<rparr> in
      case fgets inb 3 (w_stdin w1) of
        (False, in1, s1) \<Rightarrow> (False, w1\<lparr>w_stdin := s1\<rparr>)
      | (True, in1, s1) \<Rightarrow>
          if in1 ! 1 \<noteq> NL \<and> in1 ! 0 \<noteq> NL
          then confirm_loop prompt in1 (w1\<lparr>w_stdin := drain s1\<rparr>)
          else if in1 ! 0 = CHAR_YES then (True, w1\<lparr>w_stdin := s1\<rparr>)
          else if in1 ! 0 = CHAR_NO then (False, w1\<lparr>w_stdin := s1\<rparr>)
          else confirm_loop prompt in1 (w1\<lparr>w_stdin := s1\<rparr>))"
  by pat_completeness auto
termination
proof (relation "measure (\<lambda>(prompt, inb, w). length (w_stdin w))", goal_cases)
  case 1
  show ?case by simp
next
  case (2 prompt inb w w1 ok y in1 s1)
  then have "fgets inb 3 (w_stdin w) = (True, in1, s1)" by (cases ok) auto
  then have "length s1 < length (w_stdin w)" by (rule fgets_shorter)
  with drain_length [of s1] show ?case by simp
next
  case (3 prompt inb w w1 ok y in1 s1)
  then have "fgets inb 3 (w_stdin w) = (True, in1, s1)" by (cases ok) auto
  then have "length s1 < length (w_stdin w)" by (rule fgets_shorter)
  then show ?case by simp
qed

declare confirm_loop.simps [simp del]

definition confirm :: "string \<Rightarrow> world \<Rightarrow> bool \<times> world" where
  "confirm prompt w = confirm_loop prompt [NUL, NUL, NUL] w"

text \<open>The state after \<open>fputs(prompt, stderr)\<close>.\<close>

definition prompted :: "string \<Rightarrow> world \<Rightarrow> world" where
  "prompted prompt w = w\<lparr>w_stderr := snd (fputs prompt (w_stderr w))\<rparr>"

section \<open>getusrln\<close>

datatype input_mode = IN_HIDE | IN_SHOW

text \<open>
  The result of \<open>getusrln\<close>: the returned pointer (\<open>None\<close> for a null pointer, otherwise
  the array it points to) and the value stored through \<open>input_len\<close> when one is stored.
  The argument \<open>input_len\<close> of the model says whether the pointer passed is not null.
\<close>

record getusrln_result =
  gl_ret :: "cbuf option"
  gl_len :: "nat option"

definition getusrln_null :: getusrln_result where
  "getusrln_null = \<lparr>gl_ret = None, gl_len = None\<rparr>"

text \<open>
  The variable \<open>old\<close> is not initialised when \<open>mode\<close> is \<open>IN_SHOW\<close>, and not read then;
  the model passes this value for it.
\<close>

definition uninitialised :: termios where
  "uninitialised = \<lparr>c_iflag = 0, c_oflag = 0, c_cflag = 0, c_lflag = 0\<rparr>"

text \<open>
  The function from \<open>fputs(prompt, stderr)\<close> on. \<open>getline\<close> returns at least 1 when it does
  not return -1, so \<open>input_sz - 1\<close> converts to \<open>size_t\<close> without wrapping.
\<close>

definition getusrln_read ::
  "string \<Rightarrow> bool \<Rightarrow> input_mode \<Rightarrow> termios \<Rightarrow> world \<Rightarrow> getusrln_result \<times> world" where
  "getusrln_read prompt input_len mode old w =
     (let w1 = w\<lparr>w_stderr := snd (fputs prompt (w_stderr w))\<rparr> in
      case getline (w_stdin w1) of
        (input_sz, buf, s') \<Rightarrow>
          let w2 = w1\<lparr>w_stdin := s'\<rparr>;
              w3 = (if mode = IN_HIDE \<or> input_sz = - 1
                    then w2\<lparr>w_stderr := snd (fputc NL (w_stderr w2))\<rparr> else w2)
          in
            if input_sz = - 1 then (getusrln_null, w3)
            else
              (case (if mode = IN_HIDE then tcsetattr old w3 else (True, w3)) of
                 (restored, w4) \<Rightarrow>
                   if \<not> restored then (getusrln_null, w4)
                   else if input_len
                   then (\<lparr>gl_ret = Some buf, gl_len = Some (nat (input_sz - 1))\<rparr>, w4)
                   else (\<lparr>gl_ret = Some (buf[nat (input_sz - 1) := NUL]), gl_len = None\<rparr>,
                         w4)))"

definition getusrln ::
  "string \<Rightarrow> bool \<Rightarrow> input_mode \<Rightarrow> world \<Rightarrow> getusrln_result \<times> world" where
  "getusrln prompt input_len mode w =
     (if mode = IN_HIDE then
        (case tcgetattr w of
           None \<Rightarrow> (getusrln_null, w)
         | Some old \<Rightarrow>
             (case tcsetattr (old\<lparr>c_lflag := c_lflag old AND NOT ECHO\<rparr>) w of
                (disabled, w0) \<Rightarrow>
                  if \<not> disabled then (getusrln_null, w0)
                  else getusrln_read prompt input_len mode old w0))
      else getusrln_read prompt input_len mode uninitialised w)"

section \<open>Properties of fsize\<close>

text \<open>
  C9. For a descriptor that references a file of \<open>n\<close> bytes the metadata query succeeds and
  \<open>fsize\<close> returns \<open>n\<close>; for a descriptor that is not open the query fails and \<open>fsize\<close>
  returns -1. The result is negative exactly when the query fails.
\<close>

theorem fsize_size_or_sentinel:
  "(fds fd = Some n \<longrightarrow> fstat fds fd \<noteq> None \<and> fsize fds fd = int n) \<and>
   (fds fd = None \<longrightarrow> fstat fds fd = None \<and> fsize fds fd = - 1) \<and>
   (fsize fds fd < 0 \<longleftrightarrow> fstat fds fd = None)"
  by (cases "fds fd") (simp_all add: fsize_def fstat_def)

theorem fsize_size_or_sentinel_witness:
  "[3 \<mapsto> 42] (3::int) = Some (42::nat) \<and> fsize [3 \<mapsto> 42] 3 = 42 \<and>
   [3 \<mapsto> 42] (7::int) = (None :: nat option) \<and> fsize [3 \<mapsto> 42] 7 = - 1"
  using fsize_size_or_sentinel [of "[3 \<mapsto> 42]" 3 42]
    fsize_size_or_sentinel [of "[3 \<mapsto> 42]" 7 0]
  by simp

section \<open>Properties of mkpath\<close>

lemma restore_separator:
  "i < length path \<Longrightarrow> path ! i = SLASH \<Longrightarrow> (path[i := NUL])[i := SLASH] = path"
  by (metis list_update_overwrite list_update_id)

text \<open>Whichever way the loop is left, the array holds what it held when the loop was entered.\<close>

lemma mkpath_loop_buffer:
  "(mkpath_loop mkdir fs path i = Inl res \<longrightarrow> mk_path res = path) \<and>
   (mkpath_loop mkdir fs path i = Inr (fs1, path1) \<longrightarrow> path1 = path)"
proof (induction mkdir fs path i rule: mkpath_loop.induct)
  case (1 mkdir fs path i)
  show ?case
  proof (cases "i < length path \<and> path ! i \<noteq> NUL \<and> path ! i = SLASH")
    case False
    then show ?thesis by (auto simp: mkpath_loop.simps [of mkdir fs path i])
  next
    case True
    then have restored: "(path[i := NUL])[i := SLASH] = path"
      using restore_separator [of i path] by blast
    obtain fs' r where call: "mkdir fs (cstr (path[i := NUL])) = (fs', r)"
      by (cases "mkdir fs (cstr (path[i := NUL]))")
    show ?thesis
    proof (cases "mkdir_failed r")
      case True
      with \<open>i < length path \<and> path ! i \<noteq> NUL \<and> path ! i = SLASH\<close> call restored
      show ?thesis
        by (auto simp: mkpath_loop.simps [of mkdir fs path i])
    next
      case False
      with \<open>i < length path \<and> path ! i \<noteq> NUL \<and> path ! i = SLASH\<close> call restored "1.IH"
      show ?thesis
        by (auto simp: mkpath_loop.simps [of mkdir fs path i])
    qed
  qed
qed

text \<open>
  C3. For every array passed as \<open>path\<close>, every file system and every behaviour of \<open>mkdir\<close>,
  the array holds on return exactly the bytes it held on entry, whether \<open>mkpath\<close> returns
  true or false.
\<close>

theorem mkpath_restores_buffer: "mk_path (mkpath mkdir fs path) = path"
proof (cases "mkpath_loop mkdir fs path 1")
  case (Inl res)
  then show ?thesis using mkpath_loop_buffer [of mkdir fs path 1 res]
    by (simp add: mkpath_def)
next
  case (Inr p)
  obtain fs1 path1 where p: "p = (fs1, path1)" by (cases p)
  with Inr mkpath_loop_buffer [of mkdir fs path 1 _ fs1 path1] have "path1 = path" by simp
  with Inr p show ?thesis
    by (simp add: mkpath_def split: prod.splits)
qed

text \<open>
  An instance where the array is truncated inside the loop and \<open>mkdir\<close> fails there: the
  call returns false and the array is as before.
\<close>

theorem mkpath_restores_buffer_witness:
  "\<not> mk_ret (mkpath (\<lambda>fs p. (fs, Some EACCES)) () (''//a'' @ [NUL])) \<and>
   mk_path (mkpath (\<lambda>fs p. (fs, Some EACCES)) () (''//a'' @ [NUL])) = ''//a'' @ [NUL]"
proof -
  have "\<not> mk_ret (mkpath (\<lambda>fs p. (fs, Some EACCES)) () (''//a'' @ [NUL]))"
    by code_simp
  then show ?thesis
    using mkpath_restores_buffer [of "\<lambda>fs p. (fs, Some EACCES)" "()" "''//a'' @ [NUL]"]
    by blast
qed

text \<open>
  The loop is left by \<open>break\<close> at the first byte after the leading separators, so for a
  path whose second byte is no separator the only \<open>mkdir\<close> call is the one on the full path.
\<close>

lemma mkpath_single_mkdir:
  assumes "1 < length path" and "path ! 1 \<noteq> SLASH"
  shows "mkpath mkdir fs path =
    (case mkdir fs (cstr path) of
       (fs2, r) \<Rightarrow> \<lparr>mk_ret = \<not> mkdir_failed r, mk_path = path, mk_fs = fs2, mk_errno = r\<rparr>)"
proof -
  from assms have "mkpath_loop mkdir fs path 1 = Inr (fs, path)"
    by (subst mkpath_loop.simps) simp
  then show ?thesis
    by (simp add: mkpath_def split: prod.splits)
qed

text \<open>
  C2. On \<open>/tmp/x/y/z\<close> in a file system where \<open>/tmp\<close> exists and \<open>x\<close>, \<open>y\<close>, \<open>z\<close> do
  not, \<open>mkpath\<close> returns false with \<open>ENOENT\<close> and creates no directory: no intermediate
  directory is attempted.
\<close>

theorem mkpath_nested_not_created:
  "mkpath posix_mkdir {[''tmp'']} (''/tmp/x/y/z'' @ [NUL]) =
     \<lparr>mk_ret = False, mk_path = ''/tmp/x/y/z'' @ [NUL], mk_fs = {[''tmp'']},
      mk_errno = Some ENOENT\<rparr>"
  by code_simp

section \<open>Properties of get_xdg_path\<close>

lemma snprintf_fits: "length s < n \<Longrightarrow> snprintf old n s = s"
  by (simp add: snprintf_def)

text \<open>
  C4, as stated, fails where the named variable is set to the empty string: the code
  tests only that \<open>getenv\<close> returns a value, so it composes \<open>/app\<close> from the empty value,
  where the specified behaviour is the fallback under the home directory.
\<close>

theorem xdg_empty_variable_counterexample:
  "get_xdg_path 4096 [''XDG_CONFIG_HOME'' \<mapsto> [], ''HOME'' \<mapsto> ''/home/u''] [] None
       ''app'' ''XDG_CONFIG_HOME'' ''.config''
     = \<lparr>xdg_ret = 0, xdg_path = ''/app'', xdg_errno = None\<rparr> \<and>
   xdg_path_as_specified [''XDG_CONFIG_HOME'' \<mapsto> [], ''HOME'' \<mapsto> ''/home/u'']
       ''app'' ''XDG_CONFIG_HOME'' ''.config''
     = Some ''/home/u/.config/app'' \<and>
   Some (xdg_path (get_xdg_path 4096 [''XDG_CONFIG_HOME'' \<mapsto> [], ''HOME'' \<mapsto> ''/home/u'']
       [] None ''app'' ''XDG_CONFIG_HOME'' ''.config''))
     \<noteq> xdg_path_as_specified [''XDG_CONFIG_HOME'' \<mapsto> [], ''HOME'' \<mapsto> ''/home/u'']
       ''app'' ''XDG_CONFIG_HOME'' ''.config''"
  by (simp add: get_xdg_path_def getenv_def snprintf_def xdg_path_as_specified_def SLASH_def)

text \<open>
  C4, amended. The variable named by \<open>xdg_dir\<close> is used whenever it is set, also when its
  value is empty, and the path is its value, a separator and \<open>sub_dir\<close>; when it is not
  set and \<open>HOME\<close> is, the path is the home directory, \<open>fallback_dir\<close> and \<open>sub_dir\<close>
  joined by separators (both for a composed path shorter than \<open>PATH_MAX\<close>), with return
  value 0; when neither is set the return value is -2 and neither \<open>errno\<close> nor \<open>path\<close>
  is changed.
\<close>

theorem get_xdg_path_base_choice:
  "(env xdg_dir = Some xdg \<and> length xdg + length sub_dir + 1 < PATH_MAX \<longrightarrow>
      get_xdg_path PATH_MAX env path e sub_dir xdg_dir fallback_dir =
        \<lparr>xdg_ret = 0, xdg_path = xdg @ [SLASH] @ sub_dir, xdg_errno = e\<rparr>) \<and>
   (env xdg_dir = None \<and> env ''HOME'' = Some home \<and>
    length home + length fallback_dir + length sub_dir + 2 < PATH_MAX \<longrightarrow>
      get_xdg_path PATH_MAX env path e sub_dir xdg_dir fallback_dir =
        \<lparr>xdg_ret = 0, xdg_path = home @ [SLASH] @ fallback_dir @ [SLASH] @ sub_dir,
         xdg_errno = e\<rparr>) \<and>
   (env xdg_dir = None \<and> env ''HOME'' = None \<longrightarrow>
      get_xdg_path PATH_MAX env path e sub_dir xdg_dir fallback_dir =
        \<lparr>xdg_ret = - 2, xdg_path = path, xdg_errno = e\<rparr>)"
  by (simp add: get_xdg_path_def getenv_def snprintf_fits)

theorem get_xdg_path_base_choice_witness:
  "get_xdg_path 4096 [''XDG_CONFIG_HOME'' \<mapsto> [], ''HOME'' \<mapsto> ''/home/u''] [] None
       ''app'' ''XDG_CONFIG_HOME'' ''.config''
     = \<lparr>xdg_ret = 0, xdg_path = ''/app'', xdg_errno = None\<rparr> \<and>
   get_xdg_path 4096 [''HOME'' \<mapsto> ''/home/u''] [] None ''app'' ''XDG_CONFIG_HOME'' ''.config''
     = \<lparr>xdg_ret = 0, xdg_path = ''/home/u/.config/app'', xdg_errno = None\<rparr> \<and>
   get_xdg_path 4096 Map.empty ''old'' (Some EIO) ''app'' ''XDG_CONFIG_HOME'' ''.config''
     = \<lparr>xdg_ret = - 2, xdg_path = ''old'', xdg_errno = Some EIO\<rparr>"
  using
    get_xdg_path_base_choice [of "[''XDG_CONFIG_HOME'' \<mapsto> [], ''HOME'' \<mapsto> ''/home/u'']"
      "''XDG_CONFIG_HOME''" "[]" "''app''" 4096 "[]" None "''.config''" "''/home/u''"]
    get_xdg_path_base_choice [of "[''HOME'' \<mapsto> ''/home/u'']"
      "''XDG_CONFIG_HOME''" "[]" "''app''" 4096 "[]" None "''.config''" "''/home/u''"]
    get_xdg_path_base_choice [of "Map.empty"
      "''XDG_CONFIG_HOME''" "[]" "''app''" 4096 "''old''" "Some EIO" "''.config''" "[]"]
  by (simp add: SLASH_def)

text \<open>
  A composed path of exactly \<open>PATH_MAX\<close> bytes passes the length test, and \<open>snprintf\<close>,
  given the size \<open>PATH_MAX\<close>, stores all of it but its last byte.
\<close>

lemma get_xdg_path_at_PATH_MAX:
  assumes "env xdg_dir = Some xdg" and "length xdg + length sub_dir + 1 = PATH_MAX"
  shows "get_xdg_path PATH_MAX env path e sub_dir xdg_dir fallback_dir =
    \<lparr>xdg_ret = 0, xdg_path = butlast (xdg @ [SLASH] @ sub_dir), xdg_errno = e\<rparr>"
proof -
  from assms(2) have "take (PATH_MAX - 1) (xdg @ [SLASH] @ sub_dir) = butlast (xdg @ [SLASH] @ sub_dir)"
    by (simp add: butlast_conv_take)
  with assms show ?thesis
    by (simp add: get_xdg_path_def getenv_def snprintf_def)
qed

lemma get_xdg_path_overlong:
  assumes "env xdg_dir = Some xdg" and "length xdg + length sub_dir + 1 > PATH_MAX"
  shows "get_xdg_path PATH_MAX env path e sub_dir xdg_dir fallback_dir =
    \<lparr>xdg_ret = - 1, xdg_path = path, xdg_errno = Some ENAMETOOLONG\<rparr>"
  using assms by (simp add: get_xdg_path_def getenv_def)

text \<open>
  C5. With \<open>PATH_MAX\<close> 4096, a variable holding 4092 bytes and the subdirectory \<open>app\<close>, the
  composed path has 4096 bytes; \<open>get_xdg_path\<close> returns 0 and the path stored ends in
  \<open>/ap\<close>: its last byte is cut off.
\<close>

theorem get_xdg_path_truncates:
  "get_xdg_path 4096 [''XDG_DATA_HOME'' \<mapsto> SLASH # replicate 4091 (CHR ''a'')] [] None
       ''app'' ''XDG_DATA_HOME'' ''.local/share''
     = \<lparr>xdg_ret = 0, xdg_path = SLASH # replicate 4091 (CHR ''a'') @ ''/ap'', xdg_errno = None\<rparr> \<and>
   length (SLASH # replicate 4091 (CHR ''a'') @ [SLASH] @ ''app'') = 4096"
  using get_xdg_path_at_PATH_MAX [of "[''XDG_DATA_HOME'' \<mapsto> SLASH # replicate 4091 (CHR ''a'')]"
      "''XDG_DATA_HOME''" "SLASH # replicate 4091 (CHR ''a'')" "''app''" 4096 "[]" None "''.local/share''"]
  by (simp add: SLASH_def butlast_append)

section \<open>Properties of set_handler_term\<close>

lemma loop_other:
  "sig \<notin> set sigs \<Longrightarrow> set_handler_term_loop disp act sigs sig = disp sig"
  by (induction sigs arbitrary: disp act) (auto simp: Let_def)

lemma loop_step_install:
  "sa_handler (disp s) \<noteq> SIG_IGN \<Longrightarrow>
   set_handler_term_loop disp act (s # sigs) =
   set_handler_term_loop (disp(s := act\<lparr>sa_mask := insert s (sa_mask act)\<rparr>))
     (act\<lparr>sa_mask := insert s (sa_mask act)\<rparr>) sigs"
  by (simp add: Let_def)

lemma loop_step_skip:
  "sa_handler (disp s) = SIG_IGN \<Longrightarrow>
   set_handler_term_loop disp act (s # sigs) = set_handler_term_loop disp act sigs"
  by (simp add: Let_def)

lemma loop_ignored:
  "sa_handler (disp sig) = SIG_IGN \<Longrightarrow> set_handler_term_loop disp act sigs sig = disp sig"
proof (induction sigs arbitrary: disp act)
  case Nil
  show ?case by simp
next
  case (Cons s sigs)
  show ?case
  proof (cases "sa_handler (disp s) \<noteq> SIG_IGN")
    case True
    let ?act = "act\<lparr>sa_mask := insert s (sa_mask act)\<rparr>"
    from True Cons.prems have "s \<noteq> sig" by auto
    with Cons.prems have "sa_handler ((disp(s := ?act)) sig) = SIG_IGN" by simp
    then have "set_handler_term_loop (disp(s := ?act)) ?act sigs sig = (disp(s := ?act)) sig"
      by (rule Cons.IH)
    with \<open>s \<noteq> sig\<close> show ?thesis
      unfolding loop_step_install [of disp s act sigs, OF True] by simp
  next
    case False
    then have skip: "sa_handler (disp s) = SIG_IGN" by simp
    show ?thesis
      unfolding loop_step_skip [of disp s act sigs, OF skip] using Cons.prems by (rule Cons.IH)
  qed
qed

lemma loop_installed:
  "distinct sigs \<Longrightarrow> sig \<in> set sigs \<Longrightarrow> sa_handler (disp sig) \<noteq> SIG_IGN \<Longrightarrow>
   sa_handler (set_handler_term_loop disp act sigs sig) = sa_handler act \<and>
   sa_flags (set_handler_term_loop disp act sigs sig) = sa_flags act \<and>
   sig \<in> sa_mask (set_handler_term_loop disp act sigs sig)"
proof (induction sigs arbitrary: disp act)
  case Nil
  then show ?case by simp
next
  case (Cons s sigs)
  show ?case
  proof (cases "s = sig")
    case True
    with Cons.prems show ?thesis by (simp add: Let_def loop_other)
  next
    case False
    with Cons.prems have rest: "distinct sigs" "sig \<in> set sigs" by auto
    show ?thesis
    proof (cases "sa_handler (disp s) \<noteq> SIG_IGN")
      case True
      let ?act = "act\<lparr>sa_mask := insert s (sa_mask act)\<rparr>"
      from False Cons.prems have "sa_handler ((disp(s := ?act)) sig) \<noteq> SIG_IGN" by simp
      with rest have
        "sa_handler (set_handler_term_loop (disp(s := ?act)) ?act sigs sig) = sa_handler ?act \<and>
         sa_flags (set_handler_term_loop (disp(s := ?act)) ?act sigs sig) = sa_flags ?act \<and>
         sig \<in> sa_mask (set_handler_term_loop (disp(s := ?act)) ?act sigs sig)"
        by (rule Cons.IH)
      then show ?thesis
        unfolding loop_step_install [of disp s act sigs, OF True] by simp
    next
      case False
      then have skip: "sa_handler (disp s) = SIG_IGN" by simp
      show ?thesis
        unfolding loop_step_skip [of disp s act sigs, OF skip] using rest Cons.prems(3) by (rule Cons.IH)
    qed
  qed
qed

lemma set_handler_term_installs:
  assumes "sig \<in> set term_sigs" and "sa_handler (disp sig) \<noteq> SIG_IGN"
  shows "sa_handler (set_handler_term disp func sig) = Handler func \<and>
         sa_flags (set_handler_term disp func sig) = {SA_RESTART} \<and>
         sig \<in> sa_mask (set_handler_term disp func sig)"
proof -
  have "distinct term_sigs" by (simp add: term_sigs_def)
  with assms loop_installed [of term_sigs sig disp
      "\<lparr>sa_handler = Handler func, sa_mask = {}, sa_flags = {SA_RESTART}\<rparr>"]
  show ?thesis by (simp add: set_handler_term_def)
qed


lemma loop_mask:
  "distinct sigs \<Longrightarrow> sig \<in> set sigs \<Longrightarrow> sa_handler (disp sig) \<noteq> SIG_IGN \<Longrightarrow>
   sa_mask (set_handler_term_loop disp act sigs sig) =
     sa_mask act \<union>
     {s \<in> set (takeWhile (\<lambda>s. s \<noteq> sig) sigs). sa_handler (disp s) \<noteq> SIG_IGN} \<union> {sig}"
proof (induction sigs arbitrary: disp act)
  case Nil
  then show ?case by simp
next
  case (Cons s sigs)
  show ?case
  proof (cases "s = sig")
    case True
    with Cons.prems show ?thesis by (simp add: Let_def loop_other)
  next
    case False
    with Cons.prems have rest: "distinct sigs" "sig \<in> set sigs" and fresh: "s \<notin> set sigs"
      by auto
    show ?thesis
    proof (cases "sa_handler (disp s) \<noteq> SIG_IGN")
      case True
      let ?act = "act\<lparr>sa_mask := insert s (sa_mask act)\<rparr>"
      let ?disp = "disp(s := ?act)"
      from False Cons.prems have "sa_handler (?disp sig) \<noteq> SIG_IGN" by simp
      with rest have ih: "sa_mask (set_handler_term_loop ?disp ?act sigs sig) =
          sa_mask ?act \<union>
          {x \<in> set (takeWhile (\<lambda>x. x \<noteq> sig) sigs). sa_handler (?disp x) \<noteq> SIG_IGN} \<union> {sig}"
        by (rule Cons.IH)
      have "{x \<in> set (takeWhile (\<lambda>x. x \<noteq> sig) sigs). sa_handler (?disp x) \<noteq> SIG_IGN} =
            {x \<in> set (takeWhile (\<lambda>x. x \<noteq> sig) sigs). sa_handler (disp x) \<noteq> SIG_IGN}"
        using fresh by (auto dest: set_takeWhileD)
      with ih False True show ?thesis
        unfolding loop_step_install [of disp s act sigs, OF True] by auto
    next
      case ign: False
      then have skip: "sa_handler (disp s) = SIG_IGN" by simp
      from rest Cons.prems(3) have "sa_mask (set_handler_term_loop disp act sigs sig) =
          sa_mask act \<union>
          {x \<in> set (takeWhile (\<lambda>x. x \<noteq> sig) sigs). sa_handler (disp x) \<noteq> SIG_IGN} \<union> {sig}"
        by (rule Cons.IH)
      with False skip show ?thesis
        unfolding loop_step_skip [of disp s act sigs, OF skip] by auto
    qed
  qed
qed

text \<open>
  What holds: on every signal of the table that is not ignored, the handler is installed
  with \<open>SA_RESTART\<close>, and the mask installed with it holds that signal and the signals
  installed before it in the order of the table, and no signal installed after it.
\<close>

lemma set_handler_term_mask:
  assumes "sig \<in> set term_sigs" and "sa_handler (disp sig) \<noteq> SIG_IGN"
  shows "sa_mask (set_handler_term disp func sig) =
    {s \<in> set (takeWhile (\<lambda>s. s \<noteq> sig) term_sigs). sa_handler (disp s) \<noteq> SIG_IGN} \<union> {sig}"
proof -
  have "distinct term_sigs" by (simp add: term_sigs_def)
  with assms loop_mask [of term_sigs sig disp
      "\<lparr>sa_handler = Handler func, sa_mask = {}, sa_flags = {SA_RESTART}\<rparr>"]
  show ?thesis by (simp add: set_handler_term_def)
qed

text \<open>
  C6. With every signal at its default disposition the handler is installed on \<open>SIGINT\<close>
  and on \<open>SIGTERM\<close>, with \<open>SA_RESTART\<close>; the mask installed for \<open>SIGINT\<close> is \<open>SIGINT\<close> alone,
  so \<open>SIGTERM\<close>, on which the handler is installed too, is not blocked while the handler
  runs for \<open>SIGINT\<close>.
\<close>

theorem set_handler_term_first_mask:
  "sa_handler (set_handler_term (\<lambda>sig. default_action) ''cleanup'' SIGINT) = Handler ''cleanup'' \<and>
   sa_handler (set_handler_term (\<lambda>sig. default_action) ''cleanup'' SIGTERM) = Handler ''cleanup'' \<and>
   sa_flags (set_handler_term (\<lambda>sig. default_action) ''cleanup'' SIGINT) = {SA_RESTART} \<and>
   sa_mask (set_handler_term (\<lambda>sig. default_action) ''cleanup'' SIGINT) = {SIGINT} \<and>
   SIGTERM \<in> set (installed_sigs (\<lambda>sig. default_action :: string sigaction)) \<and>
   SIGTERM \<notin> sa_mask (set_handler_term (\<lambda>sig. default_action) ''cleanup'' SIGINT)"
  by (simp add: set_handler_term_def term_sigs_def default_action_def installed_sigs_def)

section \<open>Properties of err, warn and info\<close>

lemma MSG_success:
  assumes "render format ap = Some text" and "list_all id (take 3 (outcomes st))"
  shows "MSG pref render format ap st =
    (True, st\<lparr>written := written st @ pref @ text @ [NL], outcomes := drop 3 (outcomes st)\<rparr>)"
  using assms
  by (cases st rule: ostream.cases)
     (auto simp: MSG_def fputs_def fputc_def vfprintf_def put_def numeral_3_eq_3
       split: list.splits)

lemma MSG_ret:
  "fst (MSG pref render format ap st) \<longleftrightarrow>
     render format ap \<noteq> None \<and> list_all id (take 3 (outcomes st))"
  by (cases st rule: ostream.cases)
     (auto simp: MSG_def fputs_def fputc_def vfprintf_def put_def numeral_3_eq_3
       split: list.splits option.splits)

text \<open>
  C8. For each of \<open>err\<close>, \<open>warn\<close> and \<open>info\<close>: when the format is converted and the three
  writes succeed, the writer returns true and has appended to the diagnostic stream the
  colour escape, the tag, the colour reset, the formatted message and a line terminator;
  it returns true exactly when the conversion and the three writes succeed; and each escape
  is present (not empty) exactly when colour support is compiled in.
\<close>

theorem diagnostic_line:
  "(render format ap = Some text \<and> list_all id (take 3 (outcomes st)) \<longrightarrow>
      err colour render format ap st =
        (True, st\<lparr>written := written st @ C_ERROR colour @ PREF_ERROR @ C_NORMAL colour
                      @ text @ [NL],
                  outcomes := drop 3 (outcomes st)\<rparr>) \<and>
      warn colour render format ap st =
        (True, st\<lparr>written := written st @ C_WARNING colour @ PREF_WARNING @ C_NORMAL colour
                      @ text @ [NL],
                  outcomes := drop 3 (outcomes st)\<rparr>) \<and>
      info colour render format ap st =
        (True, st\<lparr>written := written st @ C_INFO colour @ PREF_INFO @ C_NORMAL colour
                      @ text @ [NL],
                  outcomes := drop 3 (outcomes st)\<rparr>)) \<and>
   (fst (err colour render format ap st) \<longleftrightarrow>
      render format ap \<noteq> None \<and> list_all id (take 3 (outcomes st))) \<and>
   (fst (warn colour render format ap st) \<longleftrightarrow>
      render format ap \<noteq> None \<and> list_all id (take 3 (outcomes st))) \<and>
   (fst (info colour render format ap st) \<longleftrightarrow>
      render format ap \<noteq> None \<and> list_all id (take 3 (outcomes st))) \<and>
   (C_ERROR colour \<noteq> [] \<longleftrightarrow> colour) \<and> (C_WARNING colour \<noteq> [] \<longleftrightarrow> colour) \<and>
   (C_INFO colour \<noteq> [] \<longleftrightarrow> colour) \<and> (C_NORMAL colour \<noteq> [] \<longleftrightarrow> colour)"
proof -
  have "C_ERROR colour \<noteq> [] \<longleftrightarrow> colour" "C_WARNING colour \<noteq> [] \<longleftrightarrow> colour"
    "C_INFO colour \<noteq> [] \<longleftrightarrow> colour" "C_NORMAL colour \<noteq> [] \<longleftrightarrow> colour"
    by (simp_all add: C_ERROR_def C_WARNING_def C_INFO_def C_NORMAL_def)
  then show ?thesis
    by (simp add: err_def warn_def info_def MSG_success MSG_ret)
qed

theorem diagnostic_line_witness:
  "err True (\<lambda>f a. Some (f @ a)) ''disk '' ''full'' \<lparr>written = [], outcomes = []\<rparr> =
     (True, \<lparr>written = CHR 0x1B # ''[31;1merror: '' @ CHR 0x1B # ''[0mdisk full'' @ [NL],
             outcomes = []\<rparr>) \<and>
   info False (\<lambda>f a. Some (f @ a)) ''disk '' ''full'' \<lparr>written = [], outcomes = []\<rparr> =
     (True, \<lparr>written = ''info: disk full'' @ [NL], outcomes = []\<rparr>) \<and>
   \<not> fst (warn False (\<lambda>f a. Some (f @ a)) ''disk '' ''full''
            \<lparr>written = [], outcomes = [True, False]\<rparr>)"
  using
    diagnostic_line [of "\<lambda>f a. Some (f @ a)" "''disk ''" "''full''" "''disk full''"
      "\<lparr>written = [], outcomes = []\<rparr>" True]
    diagnostic_line [of "\<lambda>f a. Some (f @ a)" "''disk ''" "''full''" "''disk full''"
      "\<lparr>written = [], outcomes = []\<rparr>" False]
    diagnostic_line [of "\<lambda>f a. Some (f @ a)" "''disk ''" "''full''" "''disk full''"
      "\<lparr>written = [], outcomes = [True, False]\<rparr>" False]
  by (simp add: C_ERROR_def C_INFO_def C_NORMAL_def PREF_ERROR_def PREF_INFO_def)

section \<open>Properties of confirm\<close>

text \<open>One pass of the loop, by the shape of the input that is left.\<close>

lemma fgets_3_empty: "fgets inb 3 [] = (False, inb, [])"
  by (simp add: fgets_def numeral_eq_Suc)

lemma fgets_3_newline: "fgets inb 3 (NL # rest) = (True, [NL, NUL] @ drop 2 inb, rest)"
  by (simp add: fgets_def numeral_eq_Suc)

lemma fgets_3_last: "c \<noteq> NL \<Longrightarrow> fgets inb 3 [c] = (True, [c, NUL] @ drop 2 inb, [])"
  by (simp add: fgets_def numeral_eq_Suc)

lemma fgets_3_two:
  "c \<noteq> NL \<Longrightarrow> fgets inb 3 (c # d # rest) = (True, [c, d, NUL] @ drop 3 inb, rest)"
  by (simp add: fgets_def numeral_eq_Suc)

lemma confirm_loop_eof:
  "w_stdin w = [] \<Longrightarrow> confirm_loop p inb w = (False, prompted p w)"
  by (simp add: confirm_loop.simps [of p inb w] prompted_def fgets_3_empty)

lemma NL_not_answer: "NL \<noteq> CHAR_YES" "NL \<noteq> CHAR_NO" "NL \<noteq> NUL" "NUL \<noteq> NL"
  by (simp_all add: NL_def CHAR_YES_def CHAR_NO_def NUL_def)

lemma answers_differ: "CHAR_NO \<noteq> CHAR_YES"
  by (simp add: CHAR_YES_def CHAR_NO_def)

lemma confirm_loop_blank:
  "w_stdin w = NL # rest \<Longrightarrow>
   confirm_loop p inb w = confirm_loop p ([NL, NUL] @ drop 2 inb) ((prompted p w)\<lparr>w_stdin := rest\<rparr>)"
  by (simp add: confirm_loop.simps [of p inb w] prompted_def fgets_3_newline NL_not_answer)

lemma confirm_loop_last:
  "w_stdin w = [c] \<Longrightarrow> c \<noteq> NL \<Longrightarrow>
   confirm_loop p inb w = confirm_loop p ([c, NUL] @ drop 2 inb) ((prompted p w)\<lparr>w_stdin := []\<rparr>)"
  by (simp add: confirm_loop.simps [of p inb w] prompted_def fgets_3_last NL_not_answer)

lemma confirm_loop_one:
  "w_stdin w = c # NL # rest \<Longrightarrow> c \<noteq> NL \<Longrightarrow>
   confirm_loop p inb w =
     (if c = CHAR_YES then (True, (prompted p w)\<lparr>w_stdin := rest\<rparr>)
      else if c = CHAR_NO then (False, (prompted p w)\<lparr>w_stdin := rest\<rparr>)
      else confirm_loop p ([c, NL, NUL] @ drop 3 inb) ((prompted p w)\<lparr>w_stdin := rest\<rparr>))"
  by (simp add: confirm_loop.simps [of p inb w] prompted_def fgets_3_two)

lemma confirm_loop_long:
  "w_stdin w = c # d # rest \<Longrightarrow> c \<noteq> NL \<Longrightarrow> d \<noteq> NL \<Longrightarrow>
   confirm_loop p inb w =
     confirm_loop p ([c, d, NUL] @ drop 3 inb) ((prompted p w)\<lparr>w_stdin := drain rest\<rparr>)"
  by (simp add: confirm_loop.simps [of p inb w] prompted_def fgets_3_two)

lemma drain_line: "NL \<notin> set l \<Longrightarrow> drain (l @ NL # rest) = rest"
  by (induction l) auto

lemma drain_unterminated: "NL \<notin> set l \<Longrightarrow> drain l = []"
  by (induction l) auto

lemma confirm_loop_buffer:
  "confirm_loop p inb w = confirm_loop p inb' w"
proof (induction "length (w_stdin w)" arbitrary: w inb inb' rule: less_induct)
  case less
  show ?case
  proof (cases "w_stdin w")
    case Nil
    then show ?thesis by (simp add: confirm_loop_eof)
  next
    case (Cons c s)
    show ?thesis
    proof (cases "c = NL")
      case True
      with Cons have in_w: "w_stdin w = NL # s" by simp
      have "length (w_stdin ((prompted p w)\<lparr>w_stdin := s\<rparr>)) < length (w_stdin w)"
        using in_w by simp
      from less [OF this] show ?thesis
        unfolding confirm_loop_blank [OF in_w] by blast
    next
      case False
      show ?thesis
      proof (cases s)
        case Nil
        with Cons have in_w: "w_stdin w = [c]" by simp
        have "length (w_stdin ((prompted p w)\<lparr>w_stdin := []\<rparr>)) < length (w_stdin w)"
          using in_w by simp
        from less [OF this] show ?thesis
          unfolding confirm_loop_last [OF in_w False] by blast
      next
        case (Cons d rest)
        with \<open>w_stdin w = c # s\<close> have in_w: "w_stdin w = c # d # rest" by simp
        show ?thesis
        proof (cases "d = NL")
          case True
          with in_w have in_w': "w_stdin w = c # NL # rest" by simp
          have "length (w_stdin ((prompted p w)\<lparr>w_stdin := rest\<rparr>)) < length (w_stdin w)"
            using in_w by simp
          from less [OF this] show ?thesis
            unfolding confirm_loop_one [OF in_w' False] by auto
        next
          case d: False
          have "length (w_stdin ((prompted p w)\<lparr>w_stdin := drain rest\<rparr>)) < length (w_stdin w)"
            using in_w drain_length [of rest] by simp
          from less [OF this] show ?thesis
            unfolding confirm_loop_long [OF in_w False d] by blast
        qed
      qed
    qed
  qed
qed


lemma confirm_rejects_line:
  assumes "w_stdin w = l @ NL # rest" and "NL \<notin> set l"
    and "l \<noteq> [CHAR_YES]" and "l \<noteq> [CHAR_NO]"
  shows "confirm_loop p inb w = confirm_loop p inb ((prompted p w)\<lparr>w_stdin := rest\<rparr>)"
proof (cases l)
  case Nil
  with assms(1) have "w_stdin w = NL # rest" by simp
  then have in_w: "w_stdin w = NL # rest" .
  show ?thesis
    unfolding confirm_loop_blank [OF in_w] by (rule confirm_loop_buffer)
next
  case (Cons c l')
  with assms(2) have c: "c \<noteq> NL" by auto
  show ?thesis
  proof (cases l')
    case Nil
    with Cons assms have in_w: "w_stdin w = c # NL # rest" and "c \<noteq> CHAR_YES" "c \<noteq> CHAR_NO"
      by auto
    then have "confirm_loop p inb w =
        confirm_loop p ([c, NL, NUL] @ drop 3 inb) ((prompted p w)\<lparr>w_stdin := rest\<rparr>)"
      using confirm_loop_one [OF in_w c, of p inb] by simp
    also have "\<dots> = confirm_loop p inb ((prompted p w)\<lparr>w_stdin := rest\<rparr>)"
      by (rule confirm_loop_buffer)
    finally show ?thesis .
  next
    case (Cons d l'')
    with \<open>l = c # l'\<close> assms have in_w: "w_stdin w = c # d # (l'' @ NL # rest)"
      and d: "d \<noteq> NL" and "NL \<notin> set l''"
      by auto
    then have "confirm_loop p inb w =
        confirm_loop p ([c, d, NUL] @ drop 3 inb) ((prompted p w)\<lparr>w_stdin := rest\<rparr>)"
      using confirm_loop_long [OF in_w c d, of p inb] by (simp add: drain_line)
    also have "\<dots> = confirm_loop p inb ((prompted p w)\<lparr>w_stdin := rest\<rparr>)"
      by (rule confirm_loop_buffer)
    finally show ?thesis .
  qed
qed

text \<open>
  A last line that is not empty and ends without a terminator: end-of-file is met inside
  the line, the line is rejected whatever it holds, the prompt is written a second time,
  and only the read after that returns false.
\<close>

lemma confirm_loop_partial_line:
  assumes "w_stdin w \<noteq> []" and "NL \<notin> set (w_stdin w)"
  shows "confirm_loop p inb w = (False, prompted p ((prompted p w)\<lparr>w_stdin := []\<rparr>))"
proof (cases "w_stdin w")
  case Nil
  with assms(1) show ?thesis by simp
next
  case (Cons c s)
  with assms(2) have c: "c \<noteq> NL" by auto
  show ?thesis
  proof (cases s)
    case Nil
    with Cons have in_w: "w_stdin w = [c]" by simp
    show ?thesis
      unfolding confirm_loop_last [OF in_w c] by (simp add: confirm_loop_eof)
  next
    case (Cons d rest)
    with \<open>w_stdin w = c # s\<close> assms(2) have in_w: "w_stdin w = c # d # rest"
      and d: "d \<noteq> NL" and "NL \<notin> set rest" by auto
    then show ?thesis
      unfolding confirm_loop_long [OF in_w c d]
      by (simp add: drain_unterminated confirm_loop_eof)
  qed
qed

text \<open>
  C7, as stated, fails where end-of-file is met after a last line without terminator: on
  the input \<open>y\<close> followed by end-of-file, \<open>confirm\<close> does not return at once; it goes round
  the loop again and writes the prompt a second time before it returns false, so the state
  it leaves is not the one after a single prompt.
\<close>

theorem confirm_partial_line_counterexample:
  "confirm ''ok? '' \<lparr>w_tty = None, w_tcset = [], w_stdin = ''y'',
                     w_stderr = \<lparr>written = [], outcomes = []\<rparr>\<rparr> =
     (False, \<lparr>w_tty = None, w_tcset = [], w_stdin = [],
              w_stderr = \<lparr>written = ''ok? ok? '', outcomes = []\<rparr>\<rparr>) \<and>
   snd (confirm ''ok? '' \<lparr>w_tty = None, w_tcset = [], w_stdin = ''y'',
                          w_stderr = \<lparr>written = [], outcomes = []\<rparr>\<rparr>) \<noteq>
     prompted ''ok? '' \<lparr>w_tty = None, w_tcset = [], w_stdin = [],
                        w_stderr = \<lparr>written = [], outcomes = []\<rparr>\<rparr>"
  using confirm_loop_partial_line [of "\<lparr>w_tty = None, w_tcset = [], w_stdin = ''y'',
      w_stderr = \<lparr>written = [], outcomes = []\<rparr>\<rparr>" "''ok? ''" "[NUL, NUL, NUL]"]
  by (simp add: confirm_def prompted_def fputs_def put_def NL_def)

text \<open>
  C7, amended. \<open>confirm\<close> writes the prompt to the diagnostic stream and then: on a line
  that is \<open>y\<close> alone it returns true, on a line that is \<open>n\<close> alone it returns false, both
  with the input after that line left unread; on any other line it consumes the line up to
  and including its terminator and goes on as a fresh call on the rest of the input, the
  prompt written once more; on an input at its end when the read begins it returns false
  at once, the prompt written once; on a last line that is not empty and has no terminator
  it consumes the line, writes the prompt a second time and then returns false.
\<close>

theorem confirm_answers:
  "(w_stdin w = CHAR_YES # NL # rest \<longrightarrow>
      confirm p w = (True, (prompted p w)\<lparr>w_stdin := rest\<rparr>)) \<and>
   (w_stdin w = CHAR_NO # NL # rest \<longrightarrow>
      confirm p w = (False, (prompted p w)\<lparr>w_stdin := rest\<rparr>)) \<and>
   (w_stdin w = l @ NL # rest \<and> NL \<notin> set l \<and> l \<noteq> [CHAR_YES] \<and> l \<noteq> [CHAR_NO] \<longrightarrow>
      confirm p w = confirm p ((prompted p w)\<lparr>w_stdin := rest\<rparr>)) \<and>
   (w_stdin w = [] \<longrightarrow> confirm p w = (False, prompted p w)) \<and>
   (w_stdin w \<noteq> [] \<and> NL \<notin> set (w_stdin w) \<longrightarrow>
      confirm p w = (False, prompted p ((prompted p w)\<lparr>w_stdin := []\<rparr>)))"
proof (intro conjI impI)
  assume "w_stdin w = CHAR_YES # NL # rest"
  then show "confirm p w = (True, (prompted p w)\<lparr>w_stdin := rest\<rparr>)"
    by (simp add: confirm_def confirm_loop_one NL_not_answer [symmetric])
next
  assume "w_stdin w = CHAR_NO # NL # rest"
  then show "confirm p w = (False, (prompted p w)\<lparr>w_stdin := rest\<rparr>)"
    by (simp add: confirm_def confirm_loop_one NL_not_answer [symmetric] answers_differ)
next
  assume "w_stdin w = l @ NL # rest \<and> NL \<notin> set l \<and> l \<noteq> [CHAR_YES] \<and> l \<noteq> [CHAR_NO]"
  then have "w_stdin w = l @ NL # rest" "NL \<notin> set l" "l \<noteq> [CHAR_YES]" "l \<noteq> [CHAR_NO]"
    by simp_all
  then show "confirm p w = confirm p ((prompted p w)\<lparr>w_stdin := rest\<rparr>)"
    unfolding confirm_def by (rule confirm_rejects_line)
next
  assume "w_stdin w = []"
  then show "confirm p w = (False, prompted p w)"
    by (simp add: confirm_def confirm_loop_eof)
next
  assume "w_stdin w \<noteq> [] \<and> NL \<notin> set (w_stdin w)"
  then have "w_stdin w \<noteq> []" "NL \<notin> set (w_stdin w)" by simp_all
  then show "confirm p w = (False, prompted p ((prompted p w)\<lparr>w_stdin := []\<rparr>))"
    unfolding confirm_def by (rule confirm_loop_partial_line)
qed

theorem confirm_answers_witness:
  "confirm ''ok? '' \<lparr>w_tty = None, w_tcset = [], w_stdin = ''yes'' @ [NL] @ ''y'' @ [NL],
                     w_stderr = \<lparr>written = [], outcomes = []\<rparr>\<rparr> =
     (True, \<lparr>w_tty = None, w_tcset = [], w_stdin = [],
             w_stderr = \<lparr>written = ''ok? ok? '', outcomes = []\<rparr>\<rparr>) \<and>
   confirm ''ok? '' \<lparr>w_tty = None, w_tcset = [], w_stdin = ''n'' @ [NL] @ ''y'' @ [NL],
                     w_stderr = \<lparr>written = [], outcomes = []\<rparr>\<rparr> =
     (False, \<lparr>w_tty = None, w_tcset = [], w_stdin = ''y'' @ [NL],
              w_stderr = \<lparr>written = ''ok? '', outcomes = []\<rparr>\<rparr>) \<and>
   confirm ''ok? '' \<lparr>w_tty = None, w_tcset = [], w_stdin = [],
                     w_stderr = \<lparr>written = [], outcomes = []\<rparr>\<rparr> =
     (False, \<lparr>w_tty = None, w_tcset = [], w_stdin = [],
              w_stderr = \<lparr>written = ''ok? '', outcomes = []\<rparr>\<rparr>) \<and>
   confirm ''ok? '' \<lparr>w_tty = None, w_tcset = [], w_stdin = ''yes'',
                     w_stderr = \<lparr>written = [], outcomes = []\<rparr>\<rparr> =
     (False, \<lparr>w_tty = None, w_tcset = [], w_stdin = [],
              w_stderr = \<lparr>written = ''ok? ok? '', outcomes = []\<rparr>\<rparr>)"
  using
    confirm_answers [of "\<lparr>w_tty = None, w_tcset = [], w_stdin = ''yes'',
        w_stderr = \<lparr>written = [], outcomes = []\<rparr>\<rparr>" "[]" "''ok? ''" "[]"]
    confirm_answers [of "\<lparr>w_tty = None, w_tcset = [], w_stdin = ''yes'' @ [NL] @ ''y'' @ [NL],
        w_stderr = \<lparr>written = [], outcomes = []\<rparr>\<rparr>" "''y'' @ [NL]" "''ok? ''" "''yes''"]
    confirm_answers [of "\<lparr>w_tty = None, w_tcset = [], w_stdin = ''y'' @ [NL],
        w_stderr = \<lparr>written = ''ok? '', outcomes = []\<rparr>\<rparr>" "[]" "''ok? ''" "[]"]
    confirm_answers [of "\<lparr>w_tty = None, w_tcset = [], w_stdin = ''n'' @ [NL] @ ''y'' @ [NL],
        w_stderr = \<lparr>written = [], outcomes = []\<rparr>\<rparr>" "''y'' @ [NL]" "''ok? ''" "[]"]
    confirm_answers [of "\<lparr>w_tty = None, w_tcset = [], w_stdin = [],
        w_stderr = \<lparr>written = [], outcomes = []\<rparr>\<rparr>" "[]" "''ok? ''" "[]"]
  by (simp add: prompted_def fputs_def put_def NL_def CHAR_YES_def CHAR_NO_def)

section \<open>Properties of getusrln\<close>

lemma read_line_unterminated: "NL \<notin> set data \<Longrightarrow> read_line data = (data, [])"
  by (induction data) auto

lemma getline_unterminated:
  "data \<noteq> [] \<Longrightarrow> NL \<notin> set data \<Longrightarrow>
   getline data = (int (length data), data @ [NUL], [])"
  by (simp add: getline_def read_line_unterminated)

lemma overwrite_last:
  assumes "data \<noteq> []"
  shows "(data @ [NUL])[nat (int (length data) - 1) := NUL] = butlast data @ [NUL, NUL]"
proof -
  from assms obtain xs x where d: "data = xs @ [x]" by (metis append_butlast_last_id)
  have "nat (int (length (xs @ [x])) - 1) = length xs" by simp
  then show ?thesis unfolding d by (simp add: list_update_append)
qed

lemma getusrln_read_unterminated:
  assumes "w_stdin w = data" and "data \<noteq> []" and "NL \<notin> set data"
    and "gl_ret (fst (getusrln_read p input_len mode old w)) \<noteq> None"
  shows "fst (getusrln_read p input_len mode old w) =
    (if input_len then \<lparr>gl_ret = Some (data @ [NUL]), gl_len = Some (length data - 1)\<rparr>
     else \<lparr>gl_ret = Some (butlast data @ [NUL, NUL]), gl_len = None\<rparr>)"
  using assms
  by (auto simp: getusrln_read_def Let_def getline_unterminated overwrite_last getusrln_null_def
      split: prod.splits if_splits)

lemma getusrln_read_show_succeeds:
  assumes "w_stdin w \<noteq> []"
  shows "gl_ret (fst (getusrln_read p input_len IN_SHOW old w)) \<noteq> None"
proof -
  obtain c s where "w_stdin w = c # s" using assms by (cases "w_stdin w") auto
  then have "fst (getline (w_stdin w)) \<noteq> - 1"
    by (auto simp: getline_def split: prod.splits)
  then show ?thesis
    by (auto simp: getusrln_read_def Let_def split: prod.splits)
qed

text \<open>
  C10. When the input left is a last line that is not empty and has no terminator, a call
  with \<open>mode = IN_SHOW\<close> succeeds, and every successful call reports the number of bytes
  read minus one when a length slot is given (the array then holds the bytes read and a
  terminator), and otherwise overwrites the last byte read with a terminator: the string
  returned is the line without its last byte.
\<close>

theorem getusrln_drops_last_byte:
  assumes "w_stdin w = data" and "data \<noteq> []" and "NL \<notin> set data"
  shows "(mode = IN_SHOW \<longrightarrow> gl_ret (fst (getusrln p input_len mode w)) \<noteq> None) \<and>
   (gl_ret (fst (getusrln p input_len mode w)) \<noteq> None \<longrightarrow>
      fst (getusrln p input_len mode w) =
        (if input_len then \<lparr>gl_ret = Some (data @ [NUL]), gl_len = Some (length data - 1)\<rparr>
         else \<lparr>gl_ret = Some (butlast data @ [NUL, NUL]), gl_len = None\<rparr>))"
proof (intro conjI impI)
  assume "mode = IN_SHOW"
  with assms show "gl_ret (fst (getusrln p input_len mode w)) \<noteq> None"
    by (simp add: getusrln_def getusrln_read_show_succeeds)
next
  assume ok: "gl_ret (fst (getusrln p input_len mode w)) \<noteq> None"
  show "fst (getusrln p input_len mode w) =
        (if input_len then \<lparr>gl_ret = Some (data @ [NUL]), gl_len = Some (length data - 1)\<rparr>
         else \<lparr>gl_ret = Some (butlast data @ [NUL, NUL]), gl_len = None\<rparr>)"
  proof (cases mode)
    case IN_SHOW
    with ok assms getusrln_read_unterminated [of w data p input_len IN_SHOW uninitialised]
    show ?thesis by (simp add: getusrln_def)
  next
    case IN_HIDE
    from ok IN_HIDE obtain old w0 where
      run: "getusrln p input_len mode w = getusrln_read p input_len IN_HIDE old w0"
      and same: "w_stdin w0 = w_stdin w"
      by (auto simp: getusrln_def getusrln_null_def tcgetattr_def tcsetattr_def
          split: option.splits prod.splits if_splits list.splits)
    with ok assms getusrln_read_unterminated [of w0 data p input_len IN_HIDE old]
    show ?thesis by simp
  qed
qed

theorem getusrln_drops_last_byte_witness:
  "fst (getusrln ''name: '' True IN_SHOW
          \<lparr>w_tty = None, w_tcset = [], w_stdin = ''abc'',
           w_stderr = \<lparr>written = [], outcomes = []\<rparr>\<rparr>) =
     \<lparr>gl_ret = Some (''abc'' @ [NUL]), gl_len = Some 2\<rparr> \<and>
   fst (getusrln ''name: '' False IN_SHOW
          \<lparr>w_tty = None, w_tcset = [], w_stdin = ''abc'',
           w_stderr = \<lparr>written = [], outcomes = []\<rparr>\<rparr>) =
     \<lparr>gl_ret = Some (''ab'' @ [NUL, NUL]), gl_len = None\<rparr> \<and>
   fst (getusrln ''name: '' False IN_HIDE
          \<lparr>w_tty = Some \<lparr>c_iflag = 0, c_oflag = 0, c_cflag = 0, c_lflag = 10\<rparr>,
           w_tcset = [], w_stdin = ''abc'',
           w_stderr = \<lparr>written = [], outcomes = []\<rparr>\<rparr>) =
     \<lparr>gl_ret = Some (''ab'' @ [NUL, NUL]), gl_len = None\<rparr>"
  using
    getusrln_drops_last_byte [where w = "\<lparr>w_tty = Some \<lparr>c_iflag = 0, c_oflag = 0,
        c_cflag = 0, c_lflag = 10\<rparr>, w_tcset = [], w_stdin = ''abc'',
        w_stderr = \<lparr>written = [], outcomes = []\<rparr>\<rparr>" and data = "''abc''"
      and mode = IN_HIDE and p = "''name: ''" and input_len = False]
    getusrln_drops_last_byte [where w = "\<lparr>w_tty = None, w_tcset = [], w_stdin = ''abc'',
        w_stderr = \<lparr>written = [], outcomes = []\<rparr>\<rparr>" and data = "''abc''"
      and mode = IN_SHOW and p = "''name: ''" and input_len = True]
    getusrln_drops_last_byte [where w = "\<lparr>w_tty = None, w_tcset = [], w_stdin = ''abc'',
        w_stderr = \<lparr>written = [], outcomes = []\<rparr>\<rparr>" and data = "''abc''"
      and mode = IN_SHOW and p = "''name: ''" and input_len = False]
  by (auto simp: NL_def getusrln_def getusrln_read_def tcgetattr_def tcsetattr_def getline_def
      Let_def)

text \<open>
  What the terminal is left with. A successful call in \<open>IN_HIDE\<close> mode restores the saved
  attributes. A call that has disabled echo and returns a null pointer (the read failed or
  was at end-of-file, or the restoring \<open>tcsetattr\<close> failed) leaves echo disabled.
\<close>

lemma echo_cleared: "(x AND NOT ECHO) AND ECHO = 0"
  by (simp add: and.assoc)

lemma tcsetattr_failed_keeps: "tcsetattr t w = (False, w') \<Longrightarrow> w_tty w' = w_tty w"
  by (auto simp: tcsetattr_def split: option.splits list.splits if_splits)

lemma tcsetattr_done_sets:
  "tcsetattr t w = (True, w') \<Longrightarrow>
   w_tty w' = Some t \<and> w_stdin w' = w_stdin w \<and> w_stderr w' = w_stderr w"
  by (auto simp: tcsetattr_def split: option.splits list.splits if_splits)

lemma getusrln_read_null_keeps_tty:
  "gl_ret (fst (getusrln_read p input_len mode old w)) = None \<Longrightarrow>
   w_tty (snd (getusrln_read p input_len mode old w)) = w_tty w"
  by (auto simp: getusrln_read_def Let_def getusrln_null_def
      split: prod.splits if_splits dest: tcsetattr_failed_keeps)

lemma getusrln_read_hide_success:
  "gl_ret (fst (getusrln_read p input_len IN_HIDE old w)) \<noteq> None \<Longrightarrow>
   w_tty (snd (getusrln_read p input_len IN_HIDE old w)) = Some old"
  by (auto simp: getusrln_read_def Let_def getusrln_null_def
      split: prod.splits if_splits dest: tcsetattr_done_sets)

lemma getusrln_success_restores:
  assumes "gl_ret (fst (getusrln p input_len IN_HIDE w)) \<noteq> None"
  shows "w_tty (snd (getusrln p input_len IN_HIDE w)) = w_tty w"
  using assms
  by (auto simp: getusrln_def tcgetattr_def getusrln_null_def getusrln_read_hide_success
      split: option.splits prod.splits if_splits)

lemma getusrln_failure_leaves_echo_off:
  assumes "w_tty w = Some old"
    and "tcsetattr (old\<lparr>c_lflag := c_lflag old AND NOT ECHO\<rparr>) w = (True, w0)"
    and "gl_ret (fst (getusrln p input_len IN_HIDE w)) = None"
  shows "\<not> echo_on (snd (getusrln p input_len IN_HIDE w))"
proof -
  from assms(1,2) have run:
    "getusrln p input_len IN_HIDE w = getusrln_read p input_len IN_HIDE old w0"
    by (simp add: getusrln_def tcgetattr_def)
  from assms(2) have "w_tty w0 = Some (old\<lparr>c_lflag := c_lflag old AND NOT ECHO\<rparr>)"
    by (simp add: tcsetattr_done_sets)
  moreover from assms(3) run
  have "w_tty (snd (getusrln_read p input_len IN_HIDE old w0)) = w_tty w0"
    by (simp add: getusrln_read_null_keeps_tty)
  ultimately show ?thesis
    by (simp add: run echo_on_def echo_cleared)
qed

text \<open>
  C1. On a terminal with echo enabled and standard input at end-of-file, \<open>getusrln\<close> in
  \<open>IN_HIDE\<close> mode disables echo, returns a null pointer through \<open>goto fail\<close>, and the
  terminal keeps the attributes with \<open>ECHO\<close> cleared: the saved attributes are not
  restored.
\<close>

theorem getusrln_eof_leaves_echo_off:
  "echo_on \<lparr>w_tty = Some \<lparr>c_iflag = 0, c_oflag = 0, c_cflag = 0, c_lflag = 10\<rparr>,
            w_tcset = [], w_stdin = [], w_stderr = \<lparr>written = [], outcomes = []\<rparr>\<rparr> \<and>
   getusrln ''Password: '' False IN_HIDE
     \<lparr>w_tty = Some \<lparr>c_iflag = 0, c_oflag = 0, c_cflag = 0, c_lflag = 10\<rparr>,
      w_tcset = [], w_stdin = [], w_stderr = \<lparr>written = [], outcomes = []\<rparr>\<rparr> =
     (getusrln_null,
      \<lparr>w_tty = Some \<lparr>c_iflag = 0, c_oflag = 0, c_cflag = 0, c_lflag = 2\<rparr>,
       w_tcset = [], w_stdin = [],
       w_stderr = \<lparr>written = ''Password: '' @ [NL], outcomes = []\<rparr>\<rparr>) \<and>
   \<not> echo_on (snd (getusrln ''Password: '' False IN_HIDE
     \<lparr>w_tty = Some \<lparr>c_iflag = 0, c_oflag = 0, c_cflag = 0, c_lflag = 10\<rparr>,
      w_tcset = [], w_stdin = [], w_stderr = \<lparr>written = [], outcomes = []\<rparr>\<rparr>))"
  by (simp add: getusrln_def getusrln_read_def tcgetattr_def tcsetattr_def getline_def
      fputs_def fputc_def put_def echo_on_def ECHO_def Let_def)

end
